theory Spec2Isabelle
  imports Main
begin

section \<open>JavaScript strings and regular expressions, as far as the service uses them\<close>

text \<open>
  A JavaScript string is modelled as a \<open>string\<close>; one \<open>char\<close> stands for one code unit
  (the code units below 256).  The service parses the ring buffer payload with six regular
  expressions, all of one shape: a concatenation of literals and of quantified character
  classes (\<open>[^"]+\<close>, \<open>[^>]*?\<close>, \<open>.*?\<close> under the \<open>s\<close> flag, \<open>[\s\S]*?\<close>), some of them
  capturing.  The matcher below is the backtracking matcher of ECMAScript restricted to that
  shape: the alternatives of a quantifier are tried in priority order (greedy: longest first,
  lazy: shortest first) and the first alternative under which the rest of the pattern matches
  is taken.
\<close>

datatype cls = AnyChar | NotChar char

fun accepts :: "cls \<Rightarrow> char \<Rightarrow> bool" where
  "accepts AnyChar x = True"
| "accepts (NotChar c) x = (x \<noteq> c)"

datatype quant = Plus | Star | LazyStar

datatype item = Lit string | Rep quant cls | Grp quant cls

type_synonym regex = "item list"

fun starts_with :: "string \<Rightarrow> string \<Rightarrow> bool" where
  "starts_with [] s = True"
| "starts_with (a # l) [] = False"
| "starts_with (a # l) (b # s) = (a = b \<and> starts_with l s)"

fun push :: "char \<Rightarrow> string \<times> string list \<times> string \<Rightarrow> string \<times> string list \<times> string" where
  "push x (u, gs, rest) = (x # u, gs, rest)"

text \<open>
  \<open>rmatch r s\<close> matches \<open>r\<close> at the start of \<open>s\<close>: the captured groups in order and the
  unread rest of \<open>s\<close>.  \<open>rep q c r s\<close> runs the quantifier \<open>q\<close> over the class \<open>c\<close> followed
  by the pattern \<open>r\<close>, and also returns what the quantifier consumed.
\<close>

function rmatch :: "regex \<Rightarrow> string \<Rightarrow> (string list \<times> string) option"
  and rep :: "quant \<Rightarrow> cls \<Rightarrow> regex \<Rightarrow> string \<Rightarrow> (string \<times> string list \<times> string) option"
where
  "rmatch [] s = Some ([], s)"
| "rmatch (Lit l # r) s = (if starts_with l s then rmatch r (drop (length l) s) else None)"
| "rmatch (Rep q c # r) s =
     (case rep q c r s of None \<Rightarrow> None | Some (u, gs, rest) \<Rightarrow> Some (gs, rest))"
| "rmatch (Grp q c # r) s =
     (case rep q c r s of None \<Rightarrow> None | Some (u, gs, rest) \<Rightarrow> Some (u # gs, rest))"
| "rep Plus c r [] = None"
| "rep Plus c r (x # s) =
     (if accepts c x then map_option (push x) (rep Star c r s) else None)"
| "rep Star c r [] = map_option (Pair []) (rmatch r [])"
| "rep Star c r (x # s) =
     (if accepts c x
      then (case rep Star c r s of
              Some m \<Rightarrow> Some (push x m)
            | None \<Rightarrow> map_option (Pair []) (rmatch r (x # s)))
      else map_option (Pair []) (rmatch r (x # s)))"
| "rep LazyStar c r [] = map_option (Pair []) (rmatch r [])"
| "rep LazyStar c r (x # s) =
     (case rmatch r (x # s) of
        Some m \<Rightarrow> Some ([], m)
      | None \<Rightarrow> (if accepts c x then map_option (push x) (rep LazyStar c r s) else None))"
  by pat_completeness auto
termination
  by (relation "measure (\<lambda>a. case a of
          Inl (r, s) \<Rightarrow> 2 * length r + length s
        | Inr (q, c, r, s) \<Rightarrow> 2 * length r + 1 + length s)") auto

text \<open>
  \<open>RegExp.prototype.exec\<close> from the start of \<open>s\<close>: the first position at which the pattern
  matches.  Returns the groups, the matched text and the text after the match.
\<close>

fun search :: "regex \<Rightarrow> string \<Rightarrow> (string list \<times> string \<times> string) option" where
  "search r [] =
     (case rmatch r [] of None \<Rightarrow> None | Some (gs, rest) \<Rightarrow> Some (gs, [], rest))"
| "search r (x # s) =
     (case rmatch r (x # s) of
        Some (gs, rest) \<Rightarrow> Some (gs, take (length (x # s) - length rest) (x # s), rest)
      | None \<Rightarrow> search r s)"

lemma rmatch_rep_rest_le:
  "(\<forall>gs rest. rmatch r s = Some (gs, rest) \<longrightarrow> length rest \<le> length s) \<and>
   (\<forall>u gs rest. rep q c r s = Some (u, gs, rest) \<longrightarrow> length u + length rest \<le> length s)"
proof -
  have one: "\<And>gs rest. rmatch r s = Some (gs, rest) \<Longrightarrow> length rest \<le> length s"
   and two: "\<And>u gs rest. rep q c r s = Some (u, gs, rest) \<Longrightarrow> length u + length rest \<le> length s"
  proof (induction r s and q c r s rule: rmatch_rep.induct)
    case (2 l r s)
    then show ?case by (fastforce split: if_splits)
  next
    case (3 q c r s)
    then show ?case by (fastforce split: option.splits)
  next
    case (4 q c r s)
    then show ?case by (fastforce split: option.splits)
  next
    case (6 c r x s)
    then show ?case by (fastforce split: if_splits)
  next
    case (7 c r)
    then show ?case by fastforce
  next
    case (8 c r x s)
    then show ?case by (fastforce split: if_splits option.splits)
  next
    case (9 c r)
    then show ?case by fastforce
  next
    case (10 c r x s)
    then show ?case by (fastforce split: if_splits option.splits)
  qed simp_all
  show ?thesis using one two by blast
qed

lemma search_rest_le:
  "search r s = Some (gs, m, rest) \<Longrightarrow> length m + length rest \<le> length s"
proof (induction s)
  case Nil
  then show ?case
    using rmatch_rep_rest_le [of r "[]"] by (auto split: option.splits)
next
  case (Cons x s)
  show ?case
  proof (cases "rmatch r (x # s)")
    case None
    with Cons show ?thesis by simp
  next
    case (Some a)
    obtain gs' rest' where a: "a = (gs', rest')" by (cases a)
    from Some a rmatch_rep_rest_le [of r "x # s"] have "length rest' \<le> length (x # s)"
      by blast
    with Cons.prems Some a show ?thesis by auto
  qed
qed

text \<open>
  The matches of a regular expression with the \<open>g\<close> flag (\<open>String.prototype.match\<close>,
  \<open>matchAll\<close>): after a match the search goes on behind it, and behind an empty match one
  code unit further.
\<close>

function match_all :: "regex \<Rightarrow> string \<Rightarrow> (string list \<times> string) list" where
  "match_all r s =
     (case search r s of
        None \<Rightarrow> []
      | Some (gs, m, rest) \<Rightarrow>
          (gs, m) # (if m = [] then (case rest of [] \<Rightarrow> [] | x # rest' \<Rightarrow> match_all r rest')
                     else match_all r rest))"
  by pat_completeness auto
termination
proof (relation "measure (\<lambda>(r, s). length s)")
  show "wf (measure (\<lambda>(r, s). length s))" by simp
next
  fix r s a gs b m rest x rest'
  assume "search r s = Some a" "(gs, b) = a" "(m, rest) = b" "m = []" "rest = x # rest'"
  then have "search r s = Some (gs, m, x # rest')" by simp
  from search_rest_le [OF this]
  show "((r, rest'), (r, s)) \<in> measure (\<lambda>(r, s). length s)" by simp
next
  fix r s a gs b m rest
  assume "search r s = Some a" "(gs, b) = a" "(m, rest) = b" "m \<noteq> []"
  then have "search r s = Some (gs, m, rest)" by simp
  from search_rest_le [OF this] \<open>m \<noteq> []\<close>
  show "((r, rest), (r, s)) \<in> measure (\<lambda>(r, s). length s)" by (cases m) auto
qed

text \<open>
  \<open>String.prototype.trim\<close> removes white space and line terminators at both ends; below
  256 these are the code units 9 to 13, 32 and 160.
\<close>

definition is_ws :: "char \<Rightarrow> bool" where
  "is_ws c = (let n = (of_char c :: nat) in (9 \<le> n \<and> n \<le> 13) \<or> n = 32 \<or> n = 160)"

definition trim :: "string \<Rightarrow> string" where
  "trim s = rev (dropWhile is_ws (rev (dropWhile is_ws s)))"

text \<open>
  Numbers: \<open>parseInt\<close> returns \<open>NaN\<close>, an infinity, or a double whose value is an integer.
  \<open>round_double\<close> is the conversion of an integer that is not negative to the nearest double, ties to the
  even significand (53 bits); a number that rounds to \<open>2^1024\<close> or more has no finite double.
\<close>

datatype number = NaN | Infinity | NegInfinity | Finite int

function bit_length :: "int \<Rightarrow> nat" where
  "bit_length n = (if n \<le> 0 then 0 else Suc (bit_length (n div 2)))"
  by pat_completeness auto
termination
  by (relation "measure nat") auto

definition round_double :: "int \<Rightarrow> int option" where
  "round_double a =
     (if a < 2 ^ 53 then Some a
      else (let e = bit_length a - 53;
                q = a div 2 ^ e;
                r = a mod 2 ^ e;
                half = 2 ^ (e - 1);
                v = (if r > half \<or> (r = half \<and> odd q) then q + 1 else q) * 2 ^ e
            in if v \<ge> 2 ^ 1024 then None else Some v))"

text \<open>
  \<open>parseInt\<close> with no radix: leading white space, a sign, \<open>0x\<close> for base 16, then the longest
  run of digits, \<open>NaN\<close> when there is none.  The value of the digits is taken exactly and
  then rounded to a double.
\<close>

definition digit_of :: "char \<Rightarrow> nat option" where
  "digit_of c = (let n = (of_char c :: nat) in
     if 48 \<le> n \<and> n \<le> 57 then Some (n - 48)
     else if 97 \<le> n \<and> n \<le> 122 then Some (n - 87)
     else if 65 \<le> n \<and> n \<le> 90 then Some (n - 55)
     else None)"

definition is_digit :: "nat \<Rightarrow> char \<Rightarrow> bool" where
  "is_digit radix c = (case digit_of c of None \<Rightarrow> False | Some d \<Rightarrow> d < radix)"

definition digits_value :: "nat \<Rightarrow> string \<Rightarrow> int" where
  "digits_value radix ds =
     foldl (\<lambda>a c. a * int radix + int (case digit_of c of None \<Rightarrow> 0 | Some d \<Rightarrow> d)) 0 ds"

definition parseInt :: "string \<Rightarrow> number" where
  "parseInt str =
     (let s1 = dropWhile is_ws str;
          negative = starts_with ''-'' s1;
          s2 = (if starts_with ''-'' s1 \<or> starts_with ''+'' s1 then drop 1 s1 else s1);
          hex = (starts_with ''0x'' s2 \<or> starts_with ''0X'' s2);
          radix = (if hex then 16 else 10);
          s3 = (if hex then drop 2 s2 else s2);
          ds = takeWhile (is_digit radix) s3
      in if ds = [] then NaN
         else (case round_double (digits_value radix ds) of
                 None \<Rightarrow> (if negative then NegInfinity else Infinity)
               | Some v \<Rightarrow> Finite (if negative then - v else v)))"

declare match_all.simps [simp del]

section \<open>The data model\<close>

record ProfilerSessionTemplate =
  template_name :: string
  defaultView :: string
  createStatement :: string

text \<open>
  The field values of an event are a JavaScript object used as a dictionary from field
  names to strings.
\<close>

record ProfilerEvent =
  name :: string
  timestamp :: string
  event_values :: "string \<rightharpoonup> string"

datatype AuthenticationType = SqlLogin | Integrated

record ConnectionInfo =
  ownerUri :: string
  serverName :: string
  databaseName :: string
  userName :: string
  password :: string
  authenticationType :: AuthenticationType
  isAzure :: bool

datatype SessionState = Stopped | Starting | Running | Stopping | Paused

text \<open>Dates are instants of a clock, counted as natural numbers.\<close>

record ProfilerSession =
  session_id :: string
  session_name :: string
  connection :: ConnectionInfo
  template :: ProfilerSessionTemplate
  state :: SessionState
  events :: "ProfilerEvent list"
  databaseLookup :: "int \<rightharpoonup> string"
  createdAt :: nat
  startedAt :: "nat option"
  stoppedAt :: "nat option"

section \<open>The event parser: \<open>parseXEventData\<close>\<close>

definition dquote :: char where
  "dquote = CHR 0x22"

text \<open>\<open>/<event name="([^"]+)"[^>]*?timestamp="([^"]+)"[^>]*?>(.*?)<\/event>/gs\<close>\<close>

definition event_re :: regex where
  \<open>event_re =
     [Lit ''<event name="'', Grp Plus (NotChar dquote), Lit ''"'',
      Rep LazyStar (NotChar CHR ''>''), Lit ''timestamp="'', Grp Plus (NotChar dquote), Lit ''"'',
      Rep LazyStar (NotChar CHR ''>''), Lit ''>'', Grp LazyStar AnyChar, Lit ''</event>'']\<close>

text \<open>\<open>/<event name="([^"]+)"/\<close> and \<open>/timestamp="([^"]+)"/\<close>\<close>

definition name_re :: regex where
  \<open>name_re = [Lit ''<event name="'', Grp Plus (NotChar dquote), Lit ''"'']\<close>

definition timestamp_re :: regex where
  \<open>timestamp_re = [Lit ''timestamp="'', Grp Plus (NotChar dquote), Lit ''"'']\<close>

text \<open>
  \<open>/<data name="([^"]+)"[^>]*?>[\s\S]*?<value>([\s\S]*?)<\/value>/g\<close>, the same for
  \<open>action\<close>, and \<open>/<data name="([^"]+)"[^>]*?>[\s\S]*?<text>([\s\S]*?)<\/text>/g\<close>
\<close>

definition data_re :: regex where
  \<open>data_re =
     [Lit ''<data name="'', Grp Plus (NotChar dquote), Lit ''"'',
      Rep LazyStar (NotChar CHR ''>''), Lit ''>'', Rep LazyStar AnyChar, Lit ''<value>'',
      Grp LazyStar AnyChar, Lit ''</value>'']\<close>

definition action_re :: regex where
  \<open>action_re =
     [Lit ''<action name="'', Grp Plus (NotChar dquote), Lit ''"'',
      Rep LazyStar (NotChar CHR ''>''), Lit ''>'', Rep LazyStar AnyChar, Lit ''<value>'',
      Grp LazyStar AnyChar, Lit ''</value>'']\<close>

definition text_re :: regex where
  \<open>text_re =
     [Lit ''<data name="'', Grp Plus (NotChar dquote), Lit ''"'',
      Rep LazyStar (NotChar CHR ''>''), Lit ''>'', Rep LazyStar AnyChar, Lit ''<text>'',
      Grp LazyStar AnyChar, Lit ''</text>'']\<close>

text \<open>
  \<open>event.values[fieldName] = v\<close> for a string \<open>v\<close>.  The object is a plain object literal:
  assigning a string under the key \<open>__proto__\<close> reaches the setter of \<open>Object.prototype\<close>,
  which ignores it; under every other key the assignment creates or overwrites the entry.
\<close>

definition assign :: "(string \<rightharpoonup> string) \<Rightarrow> string \<Rightarrow> string \<Rightarrow> (string \<rightharpoonup> string)" where
  "assign vals k v = (if k = ''__proto__'' then vals else vals(k \<mapsto> v))"

text \<open>The bodies of the three loops over the field matches (groups 1 and 2 of a match).\<close>

fun store_field :: "(string \<rightharpoonup> string) \<Rightarrow> string list \<times> string \<Rightarrow> (string \<rightharpoonup> string)" where
  "store_field vals ([fieldName, fieldValue], m) = assign vals fieldName (trim fieldValue)"
| "store_field vals (gs, m) = vals"

fun store_text :: "(string \<rightharpoonup> string) \<Rightarrow> string list \<times> string \<Rightarrow> (string \<rightharpoonup> string)" where
  "store_text vals ([fieldName, fieldText], m) = assign vals (fieldName @ ''_text'') (trim fieldText)"
| "store_text vals (gs, m) = vals"

text \<open>A string read from the dictionary is truthy when it is present and not empty.\<close>

fun truthy :: "string option \<Rightarrow> bool" where
  "truthy None = False"
| "truthy (Some v) = (v \<noteq> [])"

text \<open>
  The resolution of \<open>database_id\<close>: when no (non-empty) \<open>database_name\<close> is present and a
  \<open>database_id\<close> is, and the id parses to a number that is not \<open>NaN\<close> and is a key of the
  lookup table (whose keys are integers).
\<close>

definition resolve_database :: "(int \<rightharpoonup> string) \<Rightarrow> (string \<rightharpoonup> string) \<Rightarrow> (string \<rightharpoonup> string)" where
  "resolve_database lookup vals =
     (if \<not> truthy (vals ''database_name'') \<and> truthy (vals ''database_id'')
      then (case vals ''database_id'' of
              None \<Rightarrow> vals
            | Some idText \<Rightarrow>
                (case parseInt idText of
                   Finite dbId \<Rightarrow>
                     (case lookup dbId of
                        None \<Rightarrow> vals
                      | Some dbName \<Rightarrow> assign vals ''database_name'' dbName)
                 | _ \<Rightarrow> vals))
      else vals)"

text \<open>The field values read from one matched event element.\<close>

definition parse_values :: "string \<Rightarrow> (int \<rightharpoonup> string) \<Rightarrow> (string \<rightharpoonup> string)" where
  "parse_values m lookup =
     (let vals1 = foldl store_field Map.empty (match_all data_re m);
          vals2 = foldl store_field vals1 (match_all action_re m);
          vals3 = foldl store_text vals2 (match_all text_re m)
      in resolve_database lookup vals3)"

text \<open>
  The body of the loop over the event matches: the event built from one matched element,
  or nothing when the name or the timestamp is not found in it.
\<close>

definition parse_event :: "(int \<rightharpoonup> string) \<Rightarrow> string \<Rightarrow> ProfilerEvent option" where
  "parse_event lookup m =
     (case (search name_re m, search timestamp_re m) of
        (Some (n # _, _), Some (t # _, _)) \<Rightarrow>
           Some \<lparr>name = n, timestamp = t, event_values = parse_values m lookup\<rparr>
      | _ \<Rightarrow> None)"

definition parseXEventData :: "string \<Rightarrow> (int \<rightharpoonup> string) \<Rightarrow> ProfilerEvent list" where
  "parseXEventData xmlData lookup =
     List.map_filter (parse_event lookup) (map snd (match_all event_re xmlData))"

section \<open>The polling step: \<open>pollEvents\<close>\<close>

text \<open>
  \<open>Array.prototype.slice(start)\<close> with one argument: a negative \<open>start\<close> counts from the
  end, and \<open>-0\<close> is \<open>0\<close>.
\<close>

definition slice_from :: "int \<Rightarrow> 'a list \<Rightarrow> 'a list" where
  "slice_from start xs =
     (let len = int (length xs);
          k = (if start < 0 then max (len + start) 0 else min start len)
      in drop (nat k) xs)"

text \<open>
  The merge of the parsed events into the session: the events whose timestamp no event of
  the session carries are put in front of the list (\<open>unshift\<close>), and a list longer than
  \<open>maxEvents\<close> is cut by \<open>slice(-maxEvents)\<close>.  \<open>maxEvents\<close> is the setting
  \<open>mssql-profiler.maxEvents\<close>, read at every tick.
\<close>

definition uniqueNewEvents :: "ProfilerSession \<Rightarrow> ProfilerEvent list \<Rightarrow> ProfilerEvent list" where
  "uniqueNewEvents session newEvents =
     (let existingTimestamps = set (map timestamp (events session))
      in filter (\<lambda>e. timestamp e \<notin> existingTimestamps) newEvents)"

definition merge_events :: "int \<Rightarrow> ProfilerEvent list \<Rightarrow> ProfilerSession \<Rightarrow> ProfilerSession" where
  "merge_events maxEvents newEvents session =
     (let new = uniqueNewEvents session newEvents
      in if length new > 0
         then (let evs = new @ events session
               in session\<lparr>events :=
                    (if int (length evs) > maxEvents then slice_from (- maxEvents) evs else evs)\<rparr>)
         else session)"

text \<open>
  The answer of the remote engine to the retrieval query is a parameter: \<open>Inl\<close> an error
  (the query or the connection failed; the tick logs it and changes nothing), \<open>Inr\<close> the
  result, whose record set may be absent and whose rows carry \<open>event_data\<close>, a string or
  null.  Only the first row is read, and only a non-empty string is parsed.
\<close>

type_synonym query_result = "string option list option"

definition pollEvents :: "int \<Rightarrow> string + query_result \<Rightarrow> ProfilerSession \<Rightarrow> ProfilerSession" where
  "pollEvents maxEvents answer session =
     (case answer of
        Inl err \<Rightarrow> session
      | Inr None \<Rightarrow> session
      | Inr (Some []) \<Rightarrow> session
      | Inr (Some (None # rows)) \<Rightarrow> session
      | Inr (Some (Some xmlData # rows)) \<Rightarrow>
          (if xmlData = [] then session
           else merge_events maxEvents (parseXEventData xmlData (databaseLookup session)) session))"

text \<open>
  The events a tick parses from the answer of the engine (none when there is nothing to
  parse), and a run of ticks, each with the cap in force at the tick and the answer.
\<close>

definition tick_events :: "(int \<rightharpoonup> string) \<Rightarrow> string + query_result \<Rightarrow> ProfilerEvent list" where
  "tick_events lookup answer =
     (case answer of
        Inr (Some (Some xmlData # rows)) \<Rightarrow>
          (if xmlData = [] then [] else parseXEventData xmlData lookup)
      | _ \<Rightarrow> [])"

fun poll_ticks :: "(int \<times> (string + query_result)) list \<Rightarrow> ProfilerSession \<Rightarrow> ProfilerSession" where
  "poll_ticks [] session = session"
| "poll_ticks ((maxEvents, answer) # ticks) session =
     poll_ticks ticks (pollEvents maxEvents answer session)"

section \<open>The session lifecycle\<close>

text \<open>
  The state of the service: the registry \<open>activeSessions\<close>, the connection pools by owner
  URI (with their \<open>connected\<close> flag) and the timer handles by session name.  Beside the three
  maps of the class, the state carries what the lifecycle operations do to the outside: the
  interval timers that are set in the runtime (each with the name of the session it polls),
  the next fresh timer handle, and the statements sent to the remote engine so far.
\<close>

record ProfilerService =
  activeSessions :: "string \<rightharpoonup> ProfilerSession"
  connections :: "string \<rightharpoonup> bool"
  pollingIntervals :: "string \<rightharpoonup> nat"
  timers :: "(nat \<times> string) list"
  nextTimer :: nat
  issued :: "string list"

text \<open>
  The outside during one call: whether opening a connection fails and whether a statement
  fails (each with the message of the error), and the clock.
\<close>

record Remote =
  connect_error :: "ConnectionInfo \<Rightarrow> string option"
  query_error :: "string \<Rightarrow> string option"
  now :: nat

definition getConnection :: "Remote \<Rightarrow> ProfilerService \<Rightarrow> ConnectionInfo \<Rightarrow> ProfilerService \<times> (string + unit)" where
  "getConnection remote svc conn =
     (if connections svc (ownerUri conn) = Some True then (svc, Inr ())
      else (case connect_error remote conn of
              Some err \<Rightarrow> (svc, Inl err)
            | None \<Rightarrow> (svc\<lparr>connections := (connections svc)(ownerUri conn \<mapsto> True)\<rparr>, Inr ())))"

definition executeQuery :: "Remote \<Rightarrow> ProfilerService \<Rightarrow> ConnectionInfo \<Rightarrow> string \<Rightarrow> ProfilerService \<times> (string + unit)" where
  "executeQuery remote svc conn query =
     (case getConnection remote svc conn of
        (svc1, Inl err) \<Rightarrow> (svc1, Inl err)
      | (svc1, Inr _) \<Rightarrow>
          (svc1\<lparr>issued := issued svc1 @ [query]\<rparr>,
           (case query_error remote query of Some err \<Rightarrow> Inl err | None \<Rightarrow> Inr ())))"

text \<open>\<open>error?.message || 'Unknown error'\<close>\<close>

definition message_of :: "string \<Rightarrow> string" where
  "message_of err = (if err = [] then ''Unknown error'' else err)"

definition scope_of :: "ConnectionInfo \<Rightarrow> string" where
  "scope_of conn = (if isAzure conn then ''DATABASE'' else ''SERVER'')"

definition start_sql :: "string \<Rightarrow> ConnectionInfo \<Rightarrow> string" where
  "start_sql sessionName conn =
     ''ALTER EVENT SESSION ['' @ sessionName @ ''] ON '' @ scope_of conn @ '' STATE = START;''"

definition stop_sql :: "string \<Rightarrow> ConnectionInfo \<Rightarrow> string" where
  "stop_sql sessionName conn =
     ''ALTER EVENT SESSION ['' @ sessionName @ ''] ON '' @ scope_of conn @ '' STATE = STOP;''"

definition drop_sql :: "string \<Rightarrow> ConnectionInfo \<Rightarrow> string" where
  "drop_sql sessionName conn =
     ''DROP EVENT SESSION ['' @ sessionName @ ''] ON '' @ scope_of conn @ '';''"

definition not_found :: "string \<Rightarrow> string" where
  "not_found sessionName = ''Session '' @ [CHR 0x27] @ sessionName @ [CHR 0x27] @ '' not found''"

definition not_paused :: "string \<Rightarrow> string" where
  "not_paused sessionName = ''Session '' @ [CHR 0x27] @ sessionName @ [CHR 0x27] @ '' is not paused''"

text \<open>
  \<open>setInterval\<close> sets a new timer; its handle replaces the one stored under the name of the
  session, which is not cleared.
\<close>

definition startPolling :: "ProfilerService \<Rightarrow> ProfilerSession \<Rightarrow> ProfilerService" where
  "startPolling svc session =
     svc\<lparr>timers := timers svc @ [(nextTimer svc, session_name session)],
         nextTimer := nextTimer svc + 1,
         pollingIntervals := (pollingIntervals svc)(session_name session \<mapsto> nextTimer svc)\<rparr>"

definition stopPolling :: "ProfilerService \<Rightarrow> string \<Rightarrow> ProfilerService" where
  "stopPolling svc sessionName =
     (case pollingIntervals svc sessionName of
        None \<Rightarrow> svc
      | Some interval \<Rightarrow>
          svc\<lparr>timers := filter (\<lambda>t. fst t \<noteq> interval) (timers svc),
              pollingIntervals := (pollingIntervals svc)(sessionName := None)\<rparr>)"

text \<open>Polling of a session is active when a timer that polls it is set.\<close>

definition polling_active :: "ProfilerService \<Rightarrow> string \<Rightarrow> bool" where
  "polling_active svc sessionName = (sessionName \<in> set (map snd (timers svc)))"

text \<open>The session object is shared with the registry: a write to it is a write to its entry.\<close>

definition put_session :: "ProfilerService \<Rightarrow> string \<Rightarrow> ProfilerSession \<Rightarrow> ProfilerService" where
  "put_session svc sessionName session =
     svc\<lparr>activeSessions := (activeSessions svc)(sessionName \<mapsto> session)\<rparr>"

definition startSession :: "Remote \<Rightarrow> ProfilerService \<Rightarrow> string \<Rightarrow> ProfilerService \<times> (string + unit)" where
  "startSession remote svc sessionName =
     (case activeSessions svc sessionName of
        None \<Rightarrow> (svc, Inl (not_found sessionName))
      | Some session \<Rightarrow>
          (case executeQuery remote svc (connection session) (start_sql sessionName (connection session)) of
             (svc1, Inl err) \<Rightarrow> (svc1, Inl (''Failed to start profiler session: '' @ message_of err))
           | (svc1, Inr _) \<Rightarrow>
               (let session1 = session\<lparr>state := Running, startedAt := Some (now remote)\<rparr>
                in (startPolling (put_session svc1 sessionName session1) session1, Inr ()))))"

definition pauseSession :: "ProfilerService \<Rightarrow> string \<Rightarrow> ProfilerService \<times> (string + unit)" where
  "pauseSession svc sessionName =
     (case activeSessions svc sessionName of
        None \<Rightarrow> (svc, Inl (not_found sessionName))
      | Some session \<Rightarrow>
          (put_session (stopPolling svc sessionName) sessionName (session\<lparr>state := Paused\<rparr>), Inr ()))"

definition resumeSession :: "ProfilerService \<Rightarrow> string \<Rightarrow> ProfilerService \<times> (string + unit)" where
  "resumeSession svc sessionName =
     (case activeSessions svc sessionName of
        None \<Rightarrow> (svc, Inl (not_found sessionName))
      | Some session \<Rightarrow>
          (if state session \<noteq> Paused then (svc, Inl (not_paused sessionName))
           else (let session1 = session\<lparr>state := Running\<rparr>
                 in (startPolling (put_session svc sessionName session1) session1, Inr ()))))"

definition stopSession :: "Remote \<Rightarrow> ProfilerService \<Rightarrow> string \<Rightarrow> ProfilerService \<times> (string + unit)" where
  "stopSession remote svc sessionName =
     (case activeSessions svc sessionName of
        None \<Rightarrow> (svc, Inl (not_found sessionName))
      | Some session \<Rightarrow>
          (case executeQuery remote (stopPolling svc sessionName) (connection session)
                  (stop_sql sessionName (connection session)) of
             (svc1, Inl err) \<Rightarrow> (svc1, Inl (''Failed to stop profiler session: '' @ message_of err))
           | (svc1, Inr _) \<Rightarrow>
               (put_session svc1 sessionName
                  (session\<lparr>state := Stopped, stoppedAt := Some (now remote)\<rparr>), Inr ())))"

definition dropSession :: "Remote \<Rightarrow> ProfilerService \<Rightarrow> string \<Rightarrow> ProfilerService \<times> (string + unit)" where
  "dropSession remote svc sessionName =
     (case activeSessions svc sessionName of
        None \<Rightarrow> (svc, Inl (not_found sessionName))
      | Some session \<Rightarrow>
          (case (if state session = Running then stopSession remote svc sessionName
                 else (svc, Inr ())) of
             (svc1, Inl err) \<Rightarrow> (svc1, Inl (''Failed to drop profiler session: '' @ message_of err))
           | (svc1, Inr _) \<Rightarrow>
               (case executeQuery remote svc1 (connection session)
                       (drop_sql sessionName (connection session)) of
                  (svc2, Inl err) \<Rightarrow>
                     (svc2, Inl (''Failed to drop profiler session: '' @ message_of err))
                | (svc2, Inr _) \<Rightarrow>
                     (svc2\<lparr>activeSessions := (activeSessions svc2)(sessionName := None)\<rparr>, Inr ()))))"

section \<open>Payloads as sequences of event elements\<close>

text \<open>
  \<open>no_start p u w\<close>: in the text \<open>u\<close> followed by \<open>w\<close>, the text \<open>p\<close> starts nowhere inside
  \<open>u\<close>.  \<open>no_match r u w\<close>: the pattern \<open>r\<close> matches nowhere inside \<open>u\<close>.
\<close>

fun no_start :: "string \<Rightarrow> string \<Rightarrow> string \<Rightarrow> bool" where
  "no_start p [] w = True"
| "no_start p (x # u) w = (\<not> starts_with p (x # u @ w) \<and> no_start p u w)"

fun no_match :: "regex \<Rightarrow> string \<Rightarrow> string \<Rightarrow> bool" where
  "no_match r [] w = True"
| "no_match r (x # u) w = (rmatch r (x # u @ w) = None \<and> no_match r u w)"

text \<open>
  The event elements of a payload.  \<open>WellFormed n a1 t a2 body\<close> has the shape that the
  source calls the correct pattern, \<open><event name="..." package="..." timestamp="...">\<close>: the
  name \<open>n\<close> first, further attribute text \<open>a1\<close>, the timestamp \<open>t\<close>, attribute text \<open>a2\<close>, the
  body and the closing tag.  \<open>NoTimestamp n a body\<close> is the malformed element that has a name
  and no timestamp attribute.  \<open>TimestampFirst a0 t a1 n a2 body\<close> carries both attributes,
  the timestamp before the name.
\<close>

datatype element =
    WellFormed string string string string string
  | NoTimestamp string string string
  | TimestampFirst string string string string string string

fun element_text :: "element \<Rightarrow> string" where
  \<open>element_text (WellFormed n a1 t a2 body) =
     ''<event name="'' @ n @ ''"'' @ a1 @ ''timestamp="'' @ t @ ''"'' @ a2 @ ''>'' @ body @ ''</event>''\<close>
| \<open>element_text (NoTimestamp n a body) =
     ''<event name="'' @ n @ ''"'' @ a @ ''>'' @ body @ ''</event>''\<close>
| \<open>element_text (TimestampFirst a0 t a1 n a2 body) =
     ''<event'' @ a0 @ ''timestamp="'' @ t @ ''"'' @ a1 @ ''name="'' @ n @ ''"'' @ a2 @ ''>'' @ body @ ''</event>''\<close>

text \<open>
  What the elements are assumed to be.  Attribute values hold no double quote and are not
  empty, attribute text holds no \<open>>\<close>; in a well-formed element the timestamp attribute is
  the first text \<open>timestamp="\<close> behind the name, and the closing tag is the first
  \<open></event>\<close> behind the opening tag.  An element without timestamp holds no text
  \<open>timestamp="\<close> in its tag.  In an element that is skipped, no \<open><\<close> stands in the tag and
  no \<open><event name="\<close> in the body (no event element is nested in it); in \<open>TimestampFirst\<close>
  the text behind \<open><event\<close> does not begin with a name attribute.
\<close>

fun element_ok :: "element \<Rightarrow> bool" where
  \<open>element_ok (WellFormed n a1 t a2 body) =
     (n \<noteq> [] \<and> dquote \<notin> set n \<and> t \<noteq> [] \<and> dquote \<notin> set t \<and>
      CHR ''>'' \<notin> set a1 \<and> CHR ''>'' \<notin> set a2 \<and>
      no_start ''timestamp="'' (n @ ''"'' @ a1) ''timestamp="'' \<and>
      no_start ''</event>'' body ''</event>'')\<close>
| \<open>element_ok (NoTimestamp n a body) =
     (dquote \<notin> set n \<and> CHR ''>'' \<notin> set a \<and> no_start ''timestamp="'' a [] \<and>
      CHR ''<'' \<notin> set n \<and> CHR ''<'' \<notin> set a \<and> no_start ''<event name="'' body [])\<close>
| \<open>element_ok (TimestampFirst a0 t a1 n a2 body) =
     (\<not> starts_with '' name="'' (a0 @ ''timestamp="'') \<and>
      CHR ''<'' \<notin> set a0 \<and> CHR ''<'' \<notin> set t \<and> CHR ''<'' \<notin> set a1 \<and> CHR ''<'' \<notin> set n \<and>
      CHR ''<'' \<notin> set a2 \<and> no_start ''<event name="'' body [])\<close>

text \<open>The event the parser is to return for an element read on its own.\<close>

fun event_of :: "(int \<rightharpoonup> string) \<Rightarrow> element \<Rightarrow> ProfilerEvent option" where
  "event_of lookup (WellFormed n a1 t a2 body) =
     Some \<lparr>name = n, timestamp = t,
           event_values = parse_values (element_text (WellFormed n a1 t a2 body)) lookup\<rparr>"
| "event_of lookup (NoTimestamp n a body) = None"
| "event_of lookup (TimestampFirst a0 t a1 n a2 body) = None"

text \<open>
  A payload: text \<open>j0\<close>, then the elements, each followed by text (the wrapper tags and the
  white space between the elements); the text between the elements holds no
  \<open><event name="\<close>.
\<close>

fun payload_text :: "string \<Rightarrow> (element \<times> string) list \<Rightarrow> string" where
  "payload_text j0 [] = j0"
| "payload_text j0 ((e, j) # xs) = j0 @ element_text e @ payload_text j xs"

fun payload_ok :: "string \<Rightarrow> (element \<times> string) list \<Rightarrow> bool" where
  \<open>payload_ok j0 [] = no_start ''<event name="'' j0 []\<close>
| \<open>payload_ok j0 ((e, j) # xs) = (no_start ''<event name="'' j0 [] \<and> element_ok e \<and> payload_ok j xs)\<close>

section \<open>Sample values\<close>

text \<open>
  A session \<open>s\<close> on a server connection, a service in which it is running and polled by
  timer 0, one in which it is stopped, and remote engines that accept every statement,
  reject every statement, and reject only the statement that drops \<open>s\<close>.
\<close>

definition sample_connection :: ConnectionInfo where
  "sample_connection =
     \<lparr>ownerUri = ''uri'', serverName = ''srv'', databaseName = ''db'', userName = ''u'',
      password = ''p'', authenticationType = SqlLogin, isAzure = False\<rparr>"

definition sample_template :: ProfilerSessionTemplate where
  "sample_template = \<lparr>template_name = ''Standard'', defaultView = ''Standard View'',
     createStatement = ''CREATE EVENT SESSION [{sessionName}] ON SERVER''\<rparr>"

definition sample_event :: "string \<Rightarrow> ProfilerEvent" where
  "sample_event ts = \<lparr>name = ''sql_batch_completed'', timestamp = ts, event_values = Map.empty\<rparr>"

definition sample_session :: "SessionState \<Rightarrow> ProfilerEvent list \<Rightarrow> ProfilerSession" where
  "sample_session st evs =
     \<lparr>session_id = ''s'', session_name = ''s'', connection = sample_connection,
      template = sample_template, state = st, events = evs, databaseLookup = Map.empty,
      createdAt = 0, startedAt = None, stoppedAt = None\<rparr>"

definition running_service :: ProfilerService where
  "running_service =
     \<lparr>activeSessions = [''s'' \<mapsto> sample_session Running [sample_event ''t1'']],
      connections = [''uri'' \<mapsto> True], pollingIntervals = [''s'' \<mapsto> 0],
      timers = [(0, ''s'')], nextTimer = 1, issued = []\<rparr>"

definition stopped_service :: ProfilerService where
  "stopped_service =
     \<lparr>activeSessions = [''s'' \<mapsto> sample_session Stopped [sample_event ''t1'']],
      connections = [''uri'' \<mapsto> True], pollingIntervals = Map.empty,
      timers = [], nextTimer = 0, issued = []\<rparr>"

definition remote_ok :: Remote where
  "remote_ok = \<lparr>connect_error = (\<lambda>c. None), query_error = (\<lambda>q. None), now = 7\<rparr>"

definition remote_rejects :: Remote where
  "remote_rejects = \<lparr>connect_error = (\<lambda>c. None), query_error = (\<lambda>q. Some ''timeout''), now = 7\<rparr>"

definition remote_rejects_drop :: Remote where
  "remote_rejects_drop =
     \<lparr>connect_error = (\<lambda>c. None),
      query_error = (\<lambda>q. if q = ''DROP EVENT SESSION [s] ON SERVER;'' then Some ''denied'' else None),
      now = 7\<rparr>"

text \<open>
  A service like the running one, with no connection in the pool, and a remote engine to
  which no connection opens.
\<close>

definition unpooled_service :: ProfilerService where
  "unpooled_service = running_service\<lparr>connections := Map.empty\<rparr>"

definition remote_unreachable :: Remote where
  "remote_unreachable = \<lparr>connect_error = (\<lambda>c. Some ''ESOCKET''), query_error = (\<lambda>q. None), now = 7\<rparr>"

text \<open>
  A connection is at hand when the pooled one is connected or a new one opens; the remote
  side accepts a statement when a connection is at hand and the statement does not fail.
\<close>

definition at_hand :: "Remote \<Rightarrow> ProfilerService \<Rightarrow> ConnectionInfo \<Rightarrow> bool" where
  "at_hand remote svc conn =
     (connections svc (ownerUri conn) = Some True \<or> connect_error remote conn = None)"

definition accepted :: "Remote \<Rightarrow> ProfilerService \<Rightarrow> ConnectionInfo \<Rightarrow> string \<Rightarrow> bool" where
  "accepted remote svc conn query = (at_hand remote svc conn \<and> query_error remote query = None)"

text \<open>
  Payloads of the ring buffer: two events, the same two followed by two later ones (the
  buffer at the next tick), and two events that carry one timestamp.  \<open>answer_of\<close> is the
  answer of the engine that holds a payload in its first row.
\<close>

definition first_payload :: string where
  \<open>first_payload = ''<event name="a" timestamp="t1"></event><event name="b" timestamp="t2"></event>''\<close>

definition second_payload :: string where
  \<open>second_payload = ''<event name="a" timestamp="t1"></event><event name="b" timestamp="t2"></event><event name="c" timestamp="t3"></event><event name="d" timestamp="t4"></event>''\<close>

definition twin_payload :: string where
  \<open>twin_payload = ''<event name="a" timestamp="t1"></event><event name="b" timestamp="t1"></event>''\<close>

definition answer_of :: "string \<Rightarrow> string + query_result" where
  "answer_of xmlData = Inr (Some [Some xmlData])"


definition swapped_payload :: "(element \<times> string) list" where
  \<open>swapped_payload =
     [(TimestampFirst '' '' ''2025-11-17T19:30:45.123Z'' '' package="sqlserver" '' ''sql_batch_completed'' []
         ''<data name="duration"><value>12</value></data>'', []),
      (WellFormed ''rpc_completed'' '' '' ''2025-11-17T19:30:46.001Z'' [] [], [])]\<close>



definition text_payload :: string where
  \<open>text_payload = ''<event name="rpc_completed" package="sqlserver" timestamp="t1"><data name="cpu_time"><value>0</value></data><data name="result"><value>0</value><text>OK</text></data></event>''\<close>

definition text_clash_payload :: string where
  \<open>text_clash_payload = ''<event name="rpc_completed" package="sqlserver" timestamp="t1"><data name="batch"><value>1</value><text>X</text></data><data name="batch_text"><value>SELECT 1</value></data></event>''\<close>

section \<open>Properties of the session lifecycle\<close>

lemmas lifecycle_defs = startSession_def pauseSession_def resumeSession_def stopSession_def
  dropSession_def executeQuery_def getConnection_def startPolling_def stopPolling_def
  put_session_def polling_active_def

lemmas sample_defs = sample_connection_def sample_session_def running_service_def
  stopped_service_def remote_ok_def remote_rejects_def remote_rejects_drop_def sample_event_def
  unpooled_service_def remote_unreachable_def

lemmas sql_defs = start_sql_def stop_sql_def drop_sql_def scope_of_def message_of_def
  not_found_def not_paused_def

text \<open>
  C3, as stated, fails: \<open>startSession\<close> does not look at the state.  On the running sample
  session it sends the start statement and succeeds.
\<close>

theorem start_running_counterexample:
  "activeSessions running_service ''s'' = Some (sample_session Running [sample_event ''t1'']) \<and>
   state (sample_session Running [sample_event ''t1'']) = Running \<and>
   snd (startSession remote_ok running_service ''s'') = Inr () \<and>
   issued (fst (startSession remote_ok running_service ''s'')) =
     [''ALTER EVENT SESSION [s] ON SERVER STATE = START;'']"
  by (simp add: lifecycle_defs sample_defs sql_defs)

text \<open>
  C3 (amended): for every registered session whose state is \<open>Running\<close>, start makes no
  state check.  It sends the remote start statement whenever a connection is at hand (the
  pooled one is connected, or a new one opens) and sends nothing otherwise, and
  it succeeds exactly when the remote side accepts the statement; the session is then
  \<open>Running\<close> and polled.  Otherwise the call fails with
  \<open>Failed to start profiler session: ...\<close> and leaves the registry and the timers as they
  were.
\<close>

theorem start_running:
  assumes "activeSessions svc n = Some s" and "state s = Running"
  shows "issued (fst (startSession remote svc n)) =
           (if at_hand remote svc (connection s)
            then issued svc @ [start_sql n (connection s)] else issued svc) \<and>
         (snd (startSession remote svc n) = Inr ()) =
            accepted remote svc (connection s) (start_sql n (connection s)) \<and>
         (snd (startSession remote svc n) = Inr () \<longrightarrow>
            map_option state (activeSessions (fst (startSession remote svc n)) n) = Some Running \<and>
            polling_active (fst (startSession remote svc n)) (session_name s)) \<and>
         (snd (startSession remote svc n) \<noteq> Inr () \<longrightarrow>
            (\<exists>err. snd (startSession remote svc n) =
                     Inl (''Failed to start profiler session: '' @ err)) \<and>
            activeSessions (fst (startSession remote svc n)) = activeSessions svc \<and>
            timers (fst (startSession remote svc n)) = timers svc)"
  using assms
  by (auto simp: lifecycle_defs accepted_def at_hand_def split: option.splits)

theorem start_running_witness:
  "activeSessions running_service ''s'' = Some (sample_session Running [sample_event ''t1'']) \<and>
   activeSessions unpooled_service ''s'' = Some (sample_session Running [sample_event ''t1'']) \<and>
   state (sample_session Running [sample_event ''t1'']) = Running \<and>
   at_hand remote_ok unpooled_service sample_connection \<and>
   \<not> at_hand remote_unreachable unpooled_service sample_connection \<and>
   accepted remote_ok running_service sample_connection ''ALTER EVENT SESSION [s] ON SERVER STATE = START;'' \<and>
   \<not> accepted remote_rejects running_service sample_connection ''ALTER EVENT SESSION [s] ON SERVER STATE = START;'' \<and>
   issued (fst (startSession remote_ok unpooled_service ''s'')) =
     [''ALTER EVENT SESSION [s] ON SERVER STATE = START;''] \<and>
   issued (fst (startSession remote_unreachable unpooled_service ''s'')) = [] \<and>
   issued (fst (startSession remote_rejects running_service ''s'')) =
     [''ALTER EVENT SESSION [s] ON SERVER STATE = START;''] \<and>
   polling_active (fst (startSession remote_ok running_service ''s'')) ''s'' \<and>
   activeSessions (fst (startSession remote_rejects running_service ''s'')) = activeSessions running_service"
  using start_running [of running_service "''s''" "sample_session Running [sample_event ''t1'']" remote_ok]
        start_running [of running_service "''s''" "sample_session Running [sample_event ''t1'']" remote_rejects]
        start_running [of unpooled_service "''s''" "sample_session Running [sample_event ''t1'']" remote_ok]
        start_running [of unpooled_service "''s''" "sample_session Running [sample_event ''t1'']" remote_unreachable]
  by (simp add: sample_defs accepted_def at_hand_def sql_defs)

text \<open>
  C5, as stated, fails: \<open>pauseSession\<close> does not look at the state either.  Pausing the
  stopped sample session succeeds and leaves it \<open>Paused\<close>.
\<close>

theorem pause_stopped_counterexample:
  "activeSessions stopped_service ''s'' = Some (sample_session Stopped [sample_event ''t1'']) \<and>
   state (sample_session Stopped [sample_event ''t1'']) \<noteq> Running \<and>
   snd (pauseSession stopped_service ''s'') = Inr () \<and>
   map_option state (activeSessions (fst (pauseSession stopped_service ''s'')) ''s'') = Some Paused"
  by (simp add: lifecycle_defs sample_defs)

text \<open>
  C5 (amended): pause fails only for a name that is not registered (\<open>not found\<close>).  For
  every registered session, whatever its state, pause succeeds, sets the state to \<open>Paused\<close>,
  keeps the events, sends no statement to the remote engine and clears the timer stored for
  the session; polling of the session is then inactive, provided that timer was the only
  one polling it.
\<close>

theorem pause_any_state:
  "(activeSessions svc n = None \<longrightarrow> pauseSession svc n = (svc, Inl (not_found n))) \<and>
   (\<forall>s. activeSessions svc n = Some s \<longrightarrow>
      snd (pauseSession svc n) = Inr () \<and>
      map_option state (activeSessions (fst (pauseSession svc n)) n) = Some Paused \<and>
      map_option events (activeSessions (fst (pauseSession svc n)) n) = Some (events s) \<and>
      issued (fst (pauseSession svc n)) = issued svc \<and>
      pollingIntervals (fst (pauseSession svc n)) n = None \<and>
      (\<forall>t. pollingIntervals svc n = Some t \<longrightarrow> t \<notin> fst ` set (timers (fst (pauseSession svc n)))) \<and>
      ((\<forall>t. (t, n) \<in> set (timers svc) \<longrightarrow> pollingIntervals svc n = Some t) \<longrightarrow>
         \<not> polling_active (fst (pauseSession svc n)) n))"
  by (auto simp: lifecycle_defs split: option.splits)

theorem pause_any_state_witness:
  "activeSessions stopped_service ''x'' = None \<and>
   pauseSession stopped_service ''x'' = (stopped_service, Inl (not_found ''x'')) \<and>
   activeSessions running_service ''s'' = Some (sample_session Running [sample_event ''t1'']) \<and>
   pollingIntervals running_service ''s'' = Some 0 \<and>
   snd (pauseSession running_service ''s'') = Inr () \<and>
   map_option state (activeSessions (fst (pauseSession running_service ''s'')) ''s'') = Some Paused \<and>
   \<not> polling_active (fst (pauseSession running_service ''s'')) ''s''"
  using pause_any_state [of stopped_service "''x''"] pause_any_state [of running_service "''s''"]
  by (simp add: sample_defs)

text \<open>
  C9: for every registered \<open>Running\<close> session, pause followed at once by resume sends no
  statement to the remote engine at any point (nor opens a connection) and leaves the
  collected events unchanged: pause sets the state to \<open>Paused\<close>, resume sets it back to
  \<open>Running\<close> and polling is active again.
\<close>

theorem pause_resume:
  assumes "activeSessions svc n = Some s" and "state s = Running"
  shows "let paused = pauseSession svc n; resumed = resumeSession (fst paused) n in
           snd paused = Inr () \<and> snd resumed = Inr () \<and>
           issued (fst paused) = issued svc \<and> issued (fst resumed) = issued svc \<and>
           connections (fst paused) = connections svc \<and>
           connections (fst resumed) = connections svc \<and>
           map_option events (activeSessions (fst paused) n) = Some (events s) \<and>
           map_option events (activeSessions (fst resumed) n) = Some (events s) \<and>
           map_option state (activeSessions (fst paused) n) = Some Paused \<and>
           map_option state (activeSessions (fst resumed) n) = Some Running \<and>
           polling_active (fst resumed) (session_name s)"
  using assms
  by (auto simp: lifecycle_defs Let_def split: option.splits)

theorem pause_resume_witness:
  "activeSessions running_service ''s'' = Some (sample_session Running [sample_event ''t1'']) \<and>
   state (sample_session Running [sample_event ''t1'']) = Running \<and>
   (let paused = pauseSession running_service ''s''; resumed = resumeSession (fst paused) ''s'' in
      snd paused = Inr () \<and> snd resumed = Inr () \<and>
      issued (fst paused) = [] \<and> issued (fst resumed) = [] \<and>
      map_option events (activeSessions (fst resumed) ''s'') = Some [sample_event ''t1''] \<and>
      map_option state (activeSessions (fst resumed) ''s'') = Some Running \<and>
      polling_active (fst resumed) ''s'')"
  using pause_resume [of running_service "''s''" "sample_session Running [sample_event ''t1'']"]
  by (simp add: sample_defs Let_def)

text \<open>
  What a statement sent to the remote engine and the clearing of a timer leave untouched.
\<close>

lemma executeQuery_frame:
  assumes "executeQuery remote svc conn q = (svc1, r)"
  shows "activeSessions svc1 = activeSessions svc" and "timers svc1 = timers svc"
    and "pollingIntervals svc1 = pollingIntervals svc" and "nextTimer svc1 = nextTimer svc"
  using assms
  by (auto simp: executeQuery_def getConnection_def split: option.splits if_splits)

lemma stopPolling_frame:
  "activeSessions (stopPolling svc n) = activeSessions svc"
  "issued (stopPolling svc n) = issued svc"
  "connections (stopPolling svc n) = connections svc"
  "pollingIntervals (stopPolling svc n) n = None"
  by (auto simp: stopPolling_def split: option.splits)

lemma start_failed:
  assumes "activeSessions svc n = Some s" and "isl (snd (startSession remote svc n))"
  shows "activeSessions (fst (startSession remote svc n)) = activeSessions svc \<and>
         timers (fst (startSession remote svc n)) = timers svc \<and>
         pollingIntervals (fst (startSession remote svc n)) = pollingIntervals svc"
proof -
  obtain svc1 r where q: "executeQuery remote svc (connection s) (start_sql n (connection s)) = (svc1, r)"
    by (cases "executeQuery remote svc (connection s) (start_sql n (connection s))")
  show ?thesis
  proof (cases r)
    case (Inl err)
    with q assms(1) executeQuery_frame [OF q] show ?thesis by (simp add: startSession_def)
  next
    case (Inr u)
    with q assms show ?thesis by (simp add: startSession_def Let_def)
  qed
qed

lemma stop_failed:
  assumes "activeSessions svc n = Some s" and "isl (snd (stopSession remote svc n))"
  shows "activeSessions (fst (stopSession remote svc n)) = activeSessions svc \<and>
         pollingIntervals (fst (stopSession remote svc n)) n = None"
proof -
  obtain svc1 r where q: "executeQuery remote (stopPolling svc n) (connection s) (stop_sql n (connection s)) = (svc1, r)"
    by (cases "executeQuery remote (stopPolling svc n) (connection s) (stop_sql n (connection s))")
  show ?thesis
  proof (cases r)
    case (Inl err)
    with q assms(1) executeQuery_frame [OF q] show ?thesis
      by (simp add: stopSession_def stopPolling_frame)
  next
    case (Inr u)
    with q assms show ?thesis by (simp add: stopSession_def)
  qed
qed

lemma stop_succeeded:
  assumes "activeSessions svc n = Some s" and "\<not> isl (snd (stopSession remote svc n))"
  shows "activeSessions (fst (stopSession remote svc n)) =
           (activeSessions svc)(n \<mapsto> s\<lparr>state := Stopped, stoppedAt := Some (now remote)\<rparr>)"
proof -
  obtain svc1 r where q: "executeQuery remote (stopPolling svc n) (connection s) (stop_sql n (connection s)) = (svc1, r)"
    by (cases "executeQuery remote (stopPolling svc n) (connection s) (stop_sql n (connection s))")
  show ?thesis
  proof (cases r)
    case (Inl err)
    with q assms show ?thesis by (simp add: stopSession_def)
  next
    case (Inr u)
    with q assms(1) executeQuery_frame [OF q] show ?thesis
      by (simp add: stopSession_def stopPolling_frame put_session_def)
  qed
qed

lemma drop_failed_not_running:
  assumes "activeSessions svc n = Some s" and "isl (snd (dropSession remote svc n))"
    and "state s \<noteq> Running"
  shows "activeSessions (fst (dropSession remote svc n)) = activeSessions svc \<and>
         timers (fst (dropSession remote svc n)) = timers svc \<and>
         pollingIntervals (fst (dropSession remote svc n)) = pollingIntervals svc"
proof -
  obtain svc1 r where q: "executeQuery remote svc (connection s) (drop_sql n (connection s)) = (svc1, r)"
    by (cases "executeQuery remote svc (connection s) (drop_sql n (connection s))")
  show ?thesis
  proof (cases r)
    case (Inl err)
    with q assms(1,3) executeQuery_frame [OF q] show ?thesis by (simp add: dropSession_def)
  next
    case (Inr u)
    with q assms show ?thesis by (simp add: dropSession_def)
  qed
qed

lemma drop_failed_running:
  assumes "activeSessions svc n = Some s" and "isl (snd (dropSession remote svc n))"
    and "state s = Running"
  shows "activeSessions (fst (dropSession remote svc n)) = activeSessions svc \<or>
         activeSessions (fst (dropSession remote svc n)) =
           (activeSessions svc)(n \<mapsto> s\<lparr>state := Stopped, stoppedAt := Some (now remote)\<rparr>)"
proof -
  obtain svc1 r where st: "stopSession remote svc n = (svc1, r)"
    by (cases "stopSession remote svc n")
  show ?thesis
  proof (cases r)
    case (Inl err)
    with st have "isl (snd (stopSession remote svc n))" by simp
    from stop_failed [OF assms(1) this] st Inl assms(1,3) show ?thesis
      by (simp add: dropSession_def)
  next
    case (Inr u)
    with st have "\<not> isl (snd (stopSession remote svc n))" by simp
    from stop_succeeded [OF assms(1) this] st have a1: "activeSessions svc1 =
        (activeSessions svc)(n \<mapsto> s\<lparr>state := Stopped, stoppedAt := Some (now remote)\<rparr>)" by simp
    obtain svc2 r2 where q: "executeQuery remote svc1 (connection s) (drop_sql n (connection s)) = (svc2, r2)"
      by (cases "executeQuery remote svc1 (connection s) (drop_sql n (connection s))")
    show ?thesis
    proof (cases r2)
      case (Inl err)
      with q st Inr assms(1,3) a1 executeQuery_frame [OF q] show ?thesis
        by (simp add: dropSession_def)
    next
      case (Inr v)
      with q st \<open>r = Inr u\<close> assms show ?thesis by (simp add: dropSession_def)
    qed
  qed
qed

text \<open>
  C4, as stated, fails for stop and for drop.  A stop that the remote engine rejects has
  already cleared the polling timer of the running sample session; a drop whose drop
  statement is rejected, after the stop it runs first was accepted, leaves the session
  \<open>Stopped\<close>.
\<close>

theorem failed_stop_drop_counterexample:
  "isl (snd (stopSession remote_rejects running_service ''s'')) \<and>
   polling_active running_service ''s'' \<and>
   \<not> polling_active (fst (stopSession remote_rejects running_service ''s'')) ''s'' \<and>
   isl (snd (dropSession remote_rejects_drop running_service ''s'')) \<and>
   map_option state (activeSessions running_service ''s'') = Some Running \<and>
   map_option state (activeSessions (fst (dropSession remote_rejects_drop running_service ''s'')) ''s'')
     = Some Stopped"
  by (simp add: lifecycle_defs sample_defs sql_defs)

text \<open>
  C4 (amended): for every registered session, a start that fails leaves the registry (the
  state and events of every session, and membership), the timers and the stored timer
  handles unchanged.  A stop that fails leaves the registry unchanged.  A drop that fails
  leaves membership, every event list and every other session unchanged; the state of the
  session is unchanged, or the session was \<open>Running\<close> and is now \<open>Stopped\<close>; and when the
  session was not \<open>Running\<close> the registry, the timers and the stored handles are all
  unchanged.
\<close>

theorem failed_lifecycle_frame:
  assumes "activeSessions svc n = Some s"
  shows "(isl (snd (startSession remote svc n)) \<longrightarrow>
            activeSessions (fst (startSession remote svc n)) = activeSessions svc \<and>
            timers (fst (startSession remote svc n)) = timers svc \<and>
            pollingIntervals (fst (startSession remote svc n)) = pollingIntervals svc) \<and>
         (isl (snd (stopSession remote svc n)) \<longrightarrow>
            activeSessions (fst (stopSession remote svc n)) = activeSessions svc) \<and>
         (isl (snd (dropSession remote svc n)) \<longrightarrow>
            dom (activeSessions (fst (dropSession remote svc n))) = dom (activeSessions svc) \<and>
            (\<forall>m. map_option events (activeSessions (fst (dropSession remote svc n)) m) =
                   map_option events (activeSessions svc m)) \<and>
            (\<forall>m. m \<noteq> n \<longrightarrow>
                   activeSessions (fst (dropSession remote svc n)) m = activeSessions svc m) \<and>
            (map_option state (activeSessions (fst (dropSession remote svc n)) n) = Some (state s) \<or>
             state s = Running \<and>
             map_option state (activeSessions (fst (dropSession remote svc n)) n) = Some Stopped) \<and>
            (state s \<noteq> Running \<longrightarrow>
               activeSessions (fst (dropSession remote svc n)) = activeSessions svc \<and>
               timers (fst (dropSession remote svc n)) = timers svc \<and>
               pollingIntervals (fst (dropSession remote svc n)) = pollingIntervals svc))"
proof (intro conjI impI)
  assume f: "isl (snd (dropSession remote svc n))"
  have cases: "activeSessions (fst (dropSession remote svc n)) = activeSessions svc \<or>
         (state s = Running \<and> activeSessions (fst (dropSession remote svc n)) =
           (activeSessions svc)(n \<mapsto> s\<lparr>state := Stopped, stoppedAt := Some (now remote)\<rparr>))"
    using drop_failed_running [OF assms f] drop_failed_not_running [OF assms f]
    by (cases "state s = Running") auto
  from cases assms show "dom (activeSessions (fst (dropSession remote svc n))) = dom (activeSessions svc)"
    by (auto split: if_splits)
  from cases assms show "\<forall>m. map_option events (activeSessions (fst (dropSession remote svc n)) m) =
                   map_option events (activeSessions svc m)"
    by auto
  from cases show "\<forall>m. m \<noteq> n \<longrightarrow>
                   activeSessions (fst (dropSession remote svc n)) m = activeSessions svc m"
    by auto
  from cases assms show "map_option state (activeSessions (fst (dropSession remote svc n)) n) = Some (state s) \<or>
             state s = Running \<and>
             map_option state (activeSessions (fst (dropSession remote svc n)) n) = Some Stopped"
    by auto
qed (use assms start_failed stop_failed drop_failed_not_running in blast)+

theorem failed_lifecycle_frame_witness:
  "activeSessions running_service ''s'' = Some (sample_session Running [sample_event ''t1'']) \<and>
   isl (snd (startSession remote_rejects running_service ''s'')) \<and>
   timers (fst (startSession remote_rejects running_service ''s'')) = [(0, ''s'')] \<and>
   isl (snd (stopSession remote_rejects running_service ''s'')) \<and>
   activeSessions (fst (stopSession remote_rejects running_service ''s'')) = activeSessions running_service \<and>
   isl (snd (dropSession remote_rejects_drop running_service ''s'')) \<and>
   dom (activeSessions (fst (dropSession remote_rejects_drop running_service ''s''))) = {''s''} \<and>
   activeSessions stopped_service ''s'' = Some (sample_session Stopped [sample_event ''t1'']) \<and>
   isl (snd (dropSession remote_rejects stopped_service ''s'')) \<and>
   timers (fst (dropSession remote_rejects stopped_service ''s'')) = []"
proof -
  have a: "isl (snd (startSession remote_rejects running_service ''s''))"
    by (simp add: startSession_def executeQuery_def getConnection_def sample_defs)
  have b: "isl (snd (stopSession remote_rejects running_service ''s''))"
    by (simp add: stopSession_def stopPolling_def executeQuery_def getConnection_def sample_defs)
  have c: "isl (snd (dropSession remote_rejects_drop running_service ''s''))"
    by (simp add: lifecycle_defs sample_defs sql_defs)
  have d: "isl (snd (dropSession remote_rejects stopped_service ''s''))"
    by (simp add: lifecycle_defs sample_defs sql_defs)
  show ?thesis
    using a b c d
      failed_lifecycle_frame [of running_service "''s''" "sample_session Running [sample_event ''t1'']" remote_rejects]
      failed_lifecycle_frame [of running_service "''s''" "sample_session Running [sample_event ''t1'']" remote_rejects_drop]
      failed_lifecycle_frame [of stopped_service "''s''" "sample_session Stopped [sample_event ''t1'']" remote_rejects]
    by (simp add: sample_defs)
qed

section \<open>Properties of the polling step\<close>

lemmas payload_defs = first_payload_def second_payload_def twin_payload_def answer_of_def

lemma pollEvents_merge:
  "pollEvents maxEvents answer s = merge_events maxEvents (tick_events (databaseLookup s) answer) s"
  by (simp add: pollEvents_def tick_events_def merge_events_def uniqueNewEvents_def
      split: sum.splits option.splits list.splits)

lemma events_merge:
  "events (merge_events maxEvents new s) =
     (if uniqueNewEvents s new \<noteq> [] \<and> int (length (uniqueNewEvents s new @ events s)) > maxEvents
      then slice_from (- maxEvents) (uniqueNewEvents s new @ events s)
      else uniqueNewEvents s new @ events s)"
  by (simp add: merge_events_def Let_def)

lemma databaseLookup_merge: "databaseLookup (merge_events maxEvents new s) = databaseLookup s"
  by (simp add: merge_events_def Let_def)

lemma length_slice_from: "0 < maxEvents \<Longrightarrow> int (length (slice_from (- maxEvents) xs)) \<le> maxEvents"
  by (auto simp: slice_from_def Let_def)

text \<open>
  C1 (the code departs from the claim): with the cap 3, a tick that yields the events of
  \<open>t1\<close> and \<open>t2\<close> and a tick that yields those of \<open>t3\<close> and \<open>t4\<close> leave \<open>t4\<close>, \<open>t1\<close>, \<open>t2\<close>.
  The new events are put in front, and \<open>slice(-maxEvents)\<close> keeps the end of the list: the
  event of \<open>t3\<close>, one of the two that arrived last, is cut and both events of the first
  tick stay.
\<close>

theorem cap_keeps_oldest:
  "map timestamp (events (poll_ticks [(3, answer_of first_payload), (3, answer_of second_payload)]
      (sample_session Running []))) = [''t4'', ''t1'', ''t2'']"
  unfolding payload_defs sample_session_def by code_simp

text \<open>Once the list holds \<open>maxEvents\<close> events, a tick keeps none of the events it finds.\<close>

lemma full_list_keeps_nothing_new:
  assumes "0 < maxEvents" and "int (length (events s)) = maxEvents"
  shows "events (merge_events maxEvents new s) = events s"
  using assms by (auto simp: events_merge slice_from_def Let_def)

text \<open>
  C6, as stated, fails in two ways.  With the cap 0, \<open>slice(-0)\<close> keeps the whole list: one
  tick on the empty session leaves two events.  And the list is cut only in a tick that adds
  an event: after a tick under the cap 1000, a tick under the cap 1 that finds nothing new
  leaves the two events.
\<close>

theorem poll_length_cap_counterexample:
  "int (length (events (pollEvents 0 (answer_of first_payload) (sample_session Running [])))) > 0 \<and>
   int (length (events (poll_ticks [(1000, answer_of first_payload), (1, answer_of first_payload)]
      (sample_session Running [])))) > 1"
  unfolding first_payload_def answer_of_def sample_session_def by code_simp

text \<open>
  C6 (amended): for every session and every poll tick whose cap is at least 1, if the list
  was within the cap before the tick, or the tick adds at least one event, then the length
  of the list after the tick does not exceed the cap.
\<close>

theorem poll_length_cap:
  assumes "0 < maxEvents"
    and "int (length (events s)) \<le> maxEvents \<or>
         uniqueNewEvents s (tick_events (databaseLookup s) answer) \<noteq> []"
  shows "int (length (events (pollEvents maxEvents answer s))) \<le> maxEvents"
proof (cases "uniqueNewEvents s (tick_events (databaseLookup s) answer) = []")
  case True
  with assms show ?thesis by (simp add: pollEvents_merge events_merge)
next
  case False
  from assms(1) have "int (length (slice_from (- maxEvents)
      (uniqueNewEvents s (tick_events (databaseLookup s) answer) @ events s))) \<le> maxEvents"
    by (rule length_slice_from)
  with False show ?thesis
    by (simp add: pollEvents_merge events_merge del: length_append)
qed

theorem poll_length_cap_witness:
  "(0::int) < 3 \<and>
   uniqueNewEvents (sample_session Running [sample_event ''t9'', sample_event ''t8'', sample_event ''t7'', sample_event ''t6''])
     (tick_events Map.empty (answer_of first_payload)) \<noteq> [] \<and>
   int (length (events (pollEvents 3 (answer_of first_payload)
     (sample_session Running [sample_event ''t9'', sample_event ''t8'', sample_event ''t7'', sample_event ''t6''])))) \<le> 3 \<and>
   int (length (events (sample_session Running [sample_event ''t1'']))) \<le> 3 \<and>
   int (length (events (pollEvents 3 (Inl ''timeout'') (sample_session Running [sample_event ''t1''])))) \<le> 3"
proof -
  have new: "uniqueNewEvents (sample_session Running [sample_event ''t9'', sample_event ''t8'', sample_event ''t7'', sample_event ''t6''])
     (tick_events Map.empty (answer_of first_payload)) \<noteq> []"
    unfolding first_payload_def answer_of_def sample_session_def sample_event_def by code_simp
  show ?thesis
    using new
      poll_length_cap [of 3 "sample_session Running [sample_event ''t9'', sample_event ''t8'', sample_event ''t7'', sample_event ''t6'']" "answer_of first_payload"]
      poll_length_cap [of 3 "sample_session Running [sample_event ''t1'']" "Inl ''timeout''"]
    by (simp add: sample_session_def)
qed

lemma distinct_merge:
  assumes "distinct (map timestamp (events s))" and "distinct (map timestamp new)"
  shows "distinct (map timestamp (events (merge_events maxEvents new s)))"
proof -
  let ?u = "uniqueNewEvents s new"
  have "distinct (map timestamp ?u)"
    using assms(2) by (simp add: uniqueNewEvents_def distinct_map_filter)
  moreover have "set (map timestamp ?u) \<inter> set (map timestamp (events s)) = {}"
    by (auto simp: uniqueNewEvents_def)
  ultimately have d: "distinct (map timestamp (?u @ events s))"
    using assms(1) by simp
  have "\<And>k. distinct (drop k (map timestamp (?u @ events s)))"
    using d by (rule distinct_drop)
  then have "distinct (map timestamp (slice_from (- maxEvents) (?u @ events s)))"
    unfolding slice_from_def Let_def drop_map .
  with d show ?thesis by (simp add: events_merge del: map_append)
qed

lemma distinct_poll_ticks:
  assumes "distinct (map timestamp (events s))"
    and "\<forall>tick \<in> set ticks. distinct (map timestamp (tick_events (databaseLookup s) (snd tick)))"
  shows "distinct (map timestamp (events (poll_ticks ticks s)))"
  using assms
proof (induction ticks arbitrary: s)
  case Nil
  then show ?case by simp
next
  case (Cons tick ticks)
  obtain cap answer where tick: "tick = (cap, answer)" by (cases tick)
  have "distinct (map timestamp (events (pollEvents cap answer s)))"
    using Cons.prems tick by (simp add: pollEvents_merge distinct_merge)
  moreover have "databaseLookup (pollEvents cap answer s) = databaseLookup s"
    by (simp add: pollEvents_merge databaseLookup_merge)
  ultimately show ?case using Cons.IH [of "pollEvents cap answer s"] Cons.prems tick by simp
qed

lemma added_events_fresh:
  "e \<in> set (events (pollEvents maxEvents answer s)) \<Longrightarrow>
   e \<in> set (events s) \<or>
   e \<in> set (tick_events (databaseLookup s) answer) \<and> timestamp e \<notin> timestamp ` set (events s)"
  by (auto simp: pollEvents_merge events_merge slice_from_def Let_def uniqueNewEvents_def
      split: if_splits dest: in_set_dropD)

text \<open>
  C2, as stated, fails: the events parsed in one tick are compared with the events of the
  list, not with one another.  One tick on the empty session with a payload of two events
  that carry the timestamp \<open>t1\<close> adds both.
\<close>

theorem poll_ticks_distinct_counterexample:
  "events (sample_session Running []) = [] \<and>
   map timestamp (events (poll_ticks [(1000, answer_of twin_payload)] (sample_session Running [])))
     = [''t1'', ''t1'']"
  unfolding twin_payload_def answer_of_def sample_session_def by code_simp

text \<open>
  C2 (amended): for every session and every sequence of poll ticks starting from the empty
  event list, if the events parsed in each single tick carry pairwise distinct timestamps,
  then after the ticks no two events of the list share a timestamp.  In every tick, an
  event of the list after the tick was in the list before, or is a parsed event whose
  timestamp no event of the list before the tick carries.
\<close>

theorem poll_ticks_distinct:
  assumes "events s = []"
    and "\<forall>tick \<in> set ticks. distinct (map timestamp (tick_events (databaseLookup s) (snd tick)))"
  shows "distinct (map timestamp (events (poll_ticks ticks s))) \<and>
         (\<forall>maxEvents answer s'. \<forall>e \<in> set (events (pollEvents maxEvents answer s')).
            e \<in> set (events s') \<or>
            e \<in> set (tick_events (databaseLookup s') answer) \<and>
            timestamp e \<notin> timestamp ` set (events s'))"
  using distinct_poll_ticks [of s ticks] assms added_events_fresh by auto

theorem poll_ticks_distinct_witness:
  "events (sample_session Running []) = [] \<and>
   distinct (map timestamp (tick_events Map.empty (answer_of first_payload))) \<and>
   distinct (map timestamp (tick_events Map.empty (answer_of second_payload))) \<and>
   distinct (map timestamp (events (poll_ticks
      [(3, answer_of first_payload), (3, answer_of second_payload)] (sample_session Running []))))"
proof -
  have a: "distinct (map timestamp (tick_events Map.empty (answer_of first_payload)))"
    unfolding first_payload_def answer_of_def by code_simp
  have b: "distinct (map timestamp (tick_events Map.empty (answer_of second_payload)))"
    unfolding second_payload_def answer_of_def by code_simp
  show ?thesis
    using a b poll_ticks_distinct [of "sample_session Running []"
        "[(3, answer_of first_payload), (3, answer_of second_payload)]"]
    by (simp add: sample_session_def)
qed

section \<open>Properties of the parser\<close>

subsection \<open>Where a literal starts\<close>

lemma starts_with_append [simp]: "starts_with l (l @ s)"
  by (induction l) auto

lemma starts_with_same_prefix [simp]: "starts_with (x @ y) (x @ s) = starts_with y s"
  by (induction x) auto

lemma starts_with_long:
  "length p \<le> length s \<Longrightarrow> starts_with p (s @ w) = starts_with p s"
  by (induction p s rule: starts_with.induct) auto

lemma starts_with_split:
  "starts_with p (v @ w) \<Longrightarrow> starts_with p v \<or> set v \<subseteq> set p"
  by (induction p v rule: starts_with.induct) auto

lemma starts_with_next:
  "starts_with p (v @ c # w) \<Longrightarrow> v \<noteq> [] \<Longrightarrow> starts_with p v \<or> c \<in> set (tl p)"
proof (induction p v rule: starts_with.induct)
  case (3 a l b s)
  show ?case
  proof (cases s)
    case Nil
    with 3 show ?thesis by (cases l) auto
  next
    case (Cons y ys)
    with 3 show ?thesis by (cases l) auto
  qed
qed auto

lemma no_start_append:
  "no_start p (u @ v) w = (no_start p u (v @ w) \<and> no_start p v w)"
  by (induction u) auto

lemma no_start_first_char: "c \<notin> set u \<Longrightarrow> no_start (c # p) u w"
  by (induction u) auto

lemma no_start_extend:
  "no_start p u p \<Longrightarrow> no_start p u (p @ w)"
proof (induction u)
  case (Cons x u)
  have "starts_with p ((x # u @ p) @ w) = starts_with p (x # u @ p)"
    by (rule starts_with_long) simp
  with Cons show ?case by simp
qed simp

lemma no_start_next:
  "no_start p u [] \<Longrightarrow> c \<notin> set (tl p) \<Longrightarrow> no_start p u (c # w)"
proof (induction u)
  case (Cons x u)
  have "\<not> starts_with p ((x # u) @ c # w)"
    using starts_with_next [of p "x # u" c w] Cons.prems by auto
  with Cons show ?case by simp
qed simp

lemma no_start_last:
  "no_start p u [] \<Longrightarrow> u \<noteq> [] \<Longrightarrow> last u \<notin> set p \<Longrightarrow> no_start p u w"
proof (induction u)
  case (Cons x u)
  have "last (x # u) \<in> set (x # u)" by (rule last_in_set) simp
  with Cons.prems have "\<not> set (x # u) \<subseteq> set p" by blast
  with Cons.prems have "\<not> starts_with p ((x # u) @ w)"
    using starts_with_split [of p "x # u" w] by auto
  moreover have "no_start p u w"
    using Cons by (cases "u = []") auto
  ultimately show ?case by simp
qed simp

subsection \<open>The matcher on literals and quantifiers\<close>

lemma rmatch_Lit [simp]: "rmatch (Lit l # r) (l @ s) = rmatch r s"
  by simp

lemma rep_Star_stop:
  "q \<notin> set u \<Longrightarrow>
   rep Star (NotChar q) (Lit (q # l) # r) (u @ q # s) =
     map_option (\<lambda>(gs, rest). (u, gs, rest)) (rmatch (Lit (q # l) # r) (q # s))"
proof (induction u)
  case Nil
  show ?case by (cases "rmatch r (drop (length l) s)") auto
next
  case (Cons x u)
  then show ?case
    by (cases "rmatch (Lit (q # l) # r) (q # s)") (auto split: option.splits)
qed

lemma rmatch_Grp_Plus:
  "q \<notin> set u \<Longrightarrow> u \<noteq> [] \<Longrightarrow>
   rmatch (Grp Plus (NotChar q) # Lit (q # l) # r) (u @ q # s) =
     map_option (\<lambda>(gs, rest). (u # gs, rest)) (rmatch (Lit (q # l) # r) (q # s))"
proof (cases u)
  case (Cons x u')
  assume "q \<notin> set u"
  with Cons have "q \<notin> set u'" "x \<noteq> q" by auto
  with Cons rep_Star_stop [of q u' l r s] show ?thesis
    by (cases "rmatch (Lit (q # l) # r) (q # s)") (auto simp del: rmatch.simps(2))
qed simp

lemma rmatch_Grp_Plus_empty: "rmatch (Grp Plus (NotChar q) # r) (q # s) = None"
  by simp

lemma rep_Lazy_here: "rmatch r s = Some m \<Longrightarrow> rep LazyStar c r s = Some ([], m)"
  by (cases s) auto

lemma rep_Lazy_found:
  "no_start l u (l @ w) \<Longrightarrow> list_all (accepts c) u \<Longrightarrow> rmatch r w = Some (gs, rest) \<Longrightarrow>
   rep LazyStar c (Lit l # r) (u @ l @ w) = Some (u, gs, rest)"
proof (induction u)
  case Nil
  then show ?case using rep_Lazy_here [of "Lit l # r" "l @ w" "(gs, rest)" c] by simp
next
  case (Cons x u)
  then show ?case by simp
qed

lemma rep_Lazy_blocked:
  "no_start l u (x # w) \<Longrightarrow> list_all (accepts c) u \<Longrightarrow> \<not> accepts c x \<Longrightarrow>
   \<not> starts_with l (x # w) \<Longrightarrow> rep LazyStar c (Lit l # r) (u @ x # w) = None"
  by (induction u) auto

lemma search_hit:
  "rmatch r s = Some (gs, rest) \<Longrightarrow> search r s = Some (gs, take (length s - length rest) s, rest)"
  by (cases s) auto

lemma search_skip: "no_match r u w \<Longrightarrow> search r (u @ w) = search r w"
  by (induction u) auto

lemma no_start_no_match: "no_start l u w \<Longrightarrow> no_match (Lit l # r) u w"
  by (induction u) auto

lemma match_all_hit:
  "search r s = Some (gs, m, rest) \<Longrightarrow> m \<noteq> [] \<Longrightarrow> match_all r s = (gs, m) # match_all r rest"
  by (subst match_all.simps) simp

lemma match_all_skip: "no_match r u w \<Longrightarrow> match_all r (u @ w) = match_all r w"
  by (subst match_all.simps, subst (2) match_all.simps) (simp add: search_skip)

subsection \<open>The event pattern on the elements\<close>

lemma list_all_any [simp]: "list_all (accepts AnyChar) u"
  by (induction u) auto

lemma list_all_not [simp]: "list_all (accepts (NotChar c)) u = (c \<notin> set u)"
  by (induction u) auto

lemma tail_match:
  assumes "CHR ''>'' \<notin> set a2" and "no_start ''</event>'' body ''</event>''"
  shows "rmatch [Rep LazyStar (NotChar CHR ''>''), Lit ''>'', Grp LazyStar AnyChar, Lit ''</event>'']
           (a2 @ ''>'' @ body @ ''</event>'' @ w) = Some ([body], w)"
proof -
  have "rep LazyStar AnyChar [Lit ''</event>''] (body @ ''</event>'' @ w) = Some (body, [], w)"
    using assms(2) by (intro rep_Lazy_found no_start_extend) simp_all
  then have one: "rmatch [Grp LazyStar AnyChar, Lit ''</event>''] (body @ ''</event>'' @ w) = Some ([body], w)"
    by simp
  have "rep LazyStar (NotChar CHR ''>'') [Lit ''>'', Grp LazyStar AnyChar, Lit ''</event>'']
          (a2 @ ''>'' @ body @ ''</event>'' @ w) = Some (a2, [body], w)"
    using assms(1) one by (intro rep_Lazy_found no_start_first_char) simp_all
  then show ?thesis by simp
qed


lemma timestamp_match:
  assumes "t \<noteq> []" and "dquote \<notin> set t" and "rmatch r w = Some (gs, rest)"
  shows \<open>rmatch (Lit ''timestamp="'' # Grp Plus (NotChar dquote) # Lit ''"'' # r)
           (''timestamp="'' @ t @ ''"'' @ w) = Some (t # gs, rest)\<close>
proof -
  have \<open>rmatch (Grp Plus (NotChar dquote) # Lit [dquote] # r) (t @ dquote # w) =
          map_option (\<lambda>(gs, rest). (t # gs, rest)) (rmatch (Lit [dquote] # r) (dquote # w))\<close>
    using assms(1,2) by (intro rmatch_Grp_Plus)
  with assms(3) have \<open>rmatch (Grp Plus (NotChar dquote) # Lit ''"'' # r) (t @ ''"'' @ w) = Some (t # gs, rest)\<close>
    by (simp add: dquote_def)
  then show ?thesis by simp
qed

lemma well_formed_match:
  assumes "element_ok (WellFormed n a1 t a2 body)"
  shows "rmatch event_re (element_text (WellFormed n a1 t a2 body) @ w) = Some ([n, t, body], w)"
proof -
  let ?R4 = "[Rep LazyStar (NotChar CHR ''>''), Lit ''>'', Grp LazyStar AnyChar, Lit ''</event>'']"
  let ?w4 = "a2 @ ''>'' @ body @ ''</event>'' @ w"
  from assms have four: "rmatch ?R4 ?w4 = Some ([body], w)"
    by (intro tail_match) simp_all
  from assms have three: \<open>rmatch (Lit ''timestamp="'' # Grp Plus (NotChar dquote) # Lit ''"'' # ?R4)
      (''timestamp="'' @ t @ ''"'' @ ?w4) = Some ([t, body], w)\<close>
    by (intro timestamp_match four) simp_all
  from assms have \<open>no_start ''timestamp="'' a1 ''timestamp="''\<close>
    by (simp add: no_start_append)
  then have \<open>no_start ''timestamp="'' a1 (''timestamp="'' @ t @ ''"'' @ ?w4)\<close>
    by (rule no_start_extend)
  moreover from assms have "list_all (accepts (NotChar CHR ''>'')) a1" by simp
  ultimately have \<open>rep LazyStar (NotChar CHR ''>'') (Lit ''timestamp="'' # Grp Plus (NotChar dquote) # Lit ''"'' # ?R4)
      (a1 @ ''timestamp="'' @ t @ ''"'' @ ?w4) = Some (a1, [t, body], w)\<close>
    using three [unfolded rmatch.simps(2)] 
    by (intro rep_Lazy_found) (simp_all split: if_splits)
  then have two: \<open>rmatch (Rep LazyStar (NotChar CHR ''>'') # Lit ''timestamp="'' # Grp Plus (NotChar dquote) # Lit ''"'' # ?R4)
      (a1 @ ''timestamp="'' @ t @ ''"'' @ ?w4) = Some ([t, body], w)\<close>
    by simp
  let ?R2 = \<open>Rep LazyStar (NotChar CHR ''>'') # Lit ''timestamp="'' # Grp Plus (NotChar dquote) # Lit ''"'' # ?R4\<close>
  let ?w2 = \<open>a1 @ ''timestamp="'' @ t @ ''"'' @ ?w4\<close>
  from assms have \<open>rmatch (Grp Plus (NotChar dquote) # Lit [dquote] # ?R2) (n @ dquote # ?w2) =
          map_option (\<lambda>(gs, rest). (n # gs, rest)) (rmatch (Lit [dquote] # ?R2) (dquote # ?w2))\<close>
    by (intro rmatch_Grp_Plus) simp_all
  with two have one: \<open>rmatch (Grp Plus (NotChar dquote) # Lit ''"'' # ?R2) (n @ ''"'' @ ?w2) = Some ([n, t, body], w)\<close>
    by (simp add: dquote_def)
  have \<open>rmatch event_re (''<event name="'' @ n @ ''"'' @ ?w2) = Some ([n, t, body], w)\<close>
    unfolding event_re_def using one by (subst rmatch_Lit) simp
  then show ?thesis by simp
qed

lemma well_formed_name:
  assumes "n \<noteq> []" and "dquote \<notin> set n"
  shows \<open>\<exists>m rest. search name_re (''<event name="'' @ n @ ''"'' @ w) = Some ([n], m, rest)\<close>
proof -
  from assms have \<open>rmatch (Grp Plus (NotChar dquote) # Lit [dquote] # []) (n @ dquote # w) =
          map_option (\<lambda>(gs, rest). (n # gs, rest)) (rmatch (Lit [dquote] # []) (dquote # w))\<close>
    by (intro rmatch_Grp_Plus)
  then have \<open>rmatch (Grp Plus (NotChar dquote) # Lit ''"'' # []) (n @ ''"'' @ w) = Some ([n], w)\<close>
    by (simp add: dquote_def)
  then have \<open>rmatch name_re (''<event name="'' @ n @ ''"'' @ w) = Some ([n], w)\<close>
    unfolding name_re_def by (subst rmatch_Lit) simp
  from search_hit [OF this] show ?thesis by blast
qed

lemma well_formed_timestamp:
  assumes "element_ok (WellFormed n a1 t a2 body)"
  shows "\<exists>m rest. search timestamp_re (element_text (WellFormed n a1 t a2 body)) = Some ([t], m, rest)"
proof -
  let ?w = \<open>a2 @ ''>'' @ body @ ''</event>''\<close>
  let ?pre = \<open>''<event name="'' @ n @ ''"'' @ a1\<close>
  from assms have \<open>no_start ''timestamp="'' (n @ ''"'' @ a1) (''timestamp="'' @ t @ ''"'' @ ?w)\<close>
    by (intro no_start_extend) simp
  then have \<open>no_start ''timestamp="'' ?pre (''timestamp="'' @ t @ ''"'' @ ?w)\<close>
    by (simp add: no_start_append)
  then have \<open>no_match timestamp_re ?pre (''timestamp="'' @ t @ ''"'' @ ?w)\<close>
    unfolding timestamp_re_def by (rule no_start_no_match)
  then have skip: \<open>search timestamp_re (?pre @ ''timestamp="'' @ t @ ''"'' @ ?w) =
      search timestamp_re (''timestamp="'' @ t @ ''"'' @ ?w)\<close>
    by (rule search_skip)
  from assms have \<open>rmatch timestamp_re (''timestamp="'' @ t @ ''"'' @ ?w) = Some ([t], ?w)\<close>
    unfolding timestamp_re_def by (intro timestamp_match) simp_all
  from search_hit [OF this] skip show ?thesis by simp
qed

lemma well_formed_event:
  assumes "element_ok (WellFormed n a1 t a2 body)"
  shows "parse_event lookup (element_text (WellFormed n a1 t a2 body)) =
           event_of lookup (WellFormed n a1 t a2 body)"
proof -
  from assms have "n \<noteq> []" "dquote \<notin> set n" by simp_all
  from well_formed_name [OF this]
  obtain m rest where \<open>search name_re (element_text (WellFormed n a1 t a2 body)) = Some ([n], m, rest)\<close>
    by fastforce
  moreover from well_formed_timestamp [OF assms]
  obtain m' rest' where "search timestamp_re (element_text (WellFormed n a1 t a2 body)) = Some ([t], m', rest')"
    by blast
  ultimately show ?thesis by (simp add: parse_event_def)
qed

lemma no_timestamp_fails:
  assumes "element_ok (NoTimestamp n a body)"
  shows "rmatch event_re (element_text (NoTimestamp n a body) @ w) = None"
proof -
  let ?w = \<open>body @ ''</event>'' @ w\<close>
  let ?R4 = \<open>Grp Plus (NotChar dquote) # Lit ''"'' #
      [Rep LazyStar (NotChar CHR ''>''), Lit ''>'', Grp LazyStar AnyChar, Lit ''</event>'']\<close>
  from assms have \<open>no_start ''timestamp="'' a (CHR ''>'' # ?w)\<close>
    by (intro no_start_next) simp_all
  with assms have \<open>rep LazyStar (NotChar CHR ''>'') (Lit ''timestamp="'' # ?R4) (a @ CHR ''>'' # ?w) = None\<close>
    by (intro rep_Lazy_blocked) simp_all
  then have blocked: \<open>rmatch (Rep LazyStar (NotChar CHR ''>'') # Lit ''timestamp="'' # ?R4) (a @ ''>'' @ ?w) = None\<close>
    by simp
  let ?R2 = \<open>Rep LazyStar (NotChar CHR ''>'') # Lit ''timestamp="'' # ?R4\<close>
  have \<open>rmatch (Grp Plus (NotChar dquote) # Lit [dquote] # ?R2) (n @ dquote # a @ ''>'' @ ?w) = None\<close>
  proof (cases "n = []")
    case True
    then show ?thesis by simp
  next
    case False
    with assms have \<open>rmatch (Grp Plus (NotChar dquote) # Lit [dquote] # ?R2) (n @ dquote # a @ ''>'' @ ?w) =
          map_option (\<lambda>(gs, rest). (n # gs, rest)) (rmatch (Lit [dquote] # ?R2) (dquote # a @ ''>'' @ ?w))\<close>
      by (intro rmatch_Grp_Plus) simp_all
    with blocked show ?thesis by simp
  qed
  then have \<open>rmatch (Grp Plus (NotChar dquote) # Lit ''"'' # ?R2) (n @ ''"'' @ a @ ''>'' @ ?w) = None\<close>
    by (simp add: dquote_def)
  then have \<open>rmatch event_re (''<event name="'' @ n @ ''"'' @ a @ ''>'' @ ?w) = None\<close>
    unfolding event_re_def by (subst rmatch_Lit) simp
  then show ?thesis by simp
qed

lemma body_no_start:
  assumes \<open>no_start ''<event name="'' body []\<close>
  shows \<open>no_start ''<event name="'' (body @ ''</event>'') w\<close>
proof -
  from assms have \<open>no_start ''<event name="'' body (CHR ''<'' # ''/event>'' @ w)\<close>
    by (intro no_start_next) simp_all
  then show ?thesis by (simp add: no_start_append)
qed

lemma no_timestamp_skipped:
  assumes "element_ok (NoTimestamp n a body)"
  shows "no_match event_re (element_text (NoTimestamp n a body)) w"
proof -
  from assms have \<open>no_start ''<event name="'' (body @ ''</event>'') w\<close>
    by (intro body_no_start) simp
  with assms have \<open>no_start ''<event name="'' (''event name="'' @ n @ ''"'' @ a @ ''>'' @ body @ ''</event>'') w\<close>
    by (simp add: no_start_append no_start_first_char)
  then have \<open>no_match event_re (''event name="'' @ n @ ''"'' @ a @ ''>'' @ body @ ''</event>'') w\<close>
    unfolding event_re_def by (rule no_start_no_match)
  with no_timestamp_fails [OF assms, of w] show ?thesis by simp
qed

lemma timestamp_first_skipped:
  assumes "element_ok (TimestampFirst a0 t a1 n a2 body)"
  shows "no_match event_re (element_text (TimestampFirst a0 t a1 n a2 body)) w"
proof -
  let ?rest = \<open>t @ ''"'' @ a1 @ ''name="'' @ n @ ''"'' @ a2 @ ''>'' @ body @ ''</event>''\<close>
  have \<open>starts_with '' name="'' ((a0 @ ''timestamp="'') @ ?rest @ w) = starts_with '' name="'' (a0 @ ''timestamp="'')\<close>
    by (rule starts_with_long) simp
  with assms have first: \<open>\<not> starts_with '' name="'' (a0 @ ''timestamp="'' @ ?rest @ w)\<close>
    by simp
  from assms have \<open>no_start ''<event name="'' (body @ ''</event>'') w\<close>
    by (intro body_no_start) simp
  with assms first have \<open>no_start ''<event name="'' (''<event'' @ a0 @ ''timestamp="'' @ ?rest) w\<close>
    by (simp add: no_start_append no_start_first_char)
  then have \<open>no_match event_re (''<event'' @ a0 @ ''timestamp="'' @ ?rest) w\<close>
    unfolding event_re_def by (rule no_start_no_match)
  then show ?thesis by simp
qed

lemma element_text_head: "\<exists>s. element_text e = CHR ''<'' # s"
  by (cases e) simp_all

lemma junk_skipped:
  assumes \<open>no_start ''<event name="'' j0 []\<close>
  shows "no_match event_re j0 (element_text e @ w)"
proof -
  obtain s where "element_text e = CHR ''<'' # s" using element_text_head by blast
  moreover from assms have \<open>no_start ''<event name="'' j0 (CHR ''<'' # s @ w)\<close>
    by (intro no_start_next) simp_all
  ultimately show ?thesis
    unfolding event_re_def by (simp add: no_start_no_match)
qed

lemma match_all_nothing: "match_all event_re [] = []"
  by (subst match_all.simps) (simp add: event_re_def)

lemma junk_only:
  assumes \<open>no_start ''<event name="'' j0 []\<close>
  shows "match_all event_re j0 = []"
proof -
  from assms have "no_match event_re j0 []"
    unfolding event_re_def by (rule no_start_no_match)
  from match_all_skip [OF this] show ?thesis by (simp add: match_all_nothing)
qed

lemma element_matches:
  assumes "element_ok e"
  shows "List.map_filter (parse_event lookup) (map snd (match_all event_re (element_text e @ w))) =
         List.map_filter (event_of lookup) [e] @
         List.map_filter (parse_event lookup) (map snd (match_all event_re w))"
proof (cases e)
  case (WellFormed n a1 t a2 body)
  with assms have "rmatch event_re (element_text e @ w) = Some ([n, t, body], w)"
    using well_formed_match by simp
  from search_hit [OF this]
  have "search event_re (element_text e @ w) = Some ([n, t, body], element_text e, w)" by simp
  moreover have "element_text e \<noteq> []" using element_text_head [of e] by auto
  ultimately have "match_all event_re (element_text e @ w) =
      ([n, t, body], element_text e) # match_all event_re w"
    by (rule match_all_hit)
  with assms WellFormed well_formed_event [of n a1 t a2 body lookup] show ?thesis
    by simp
next
  case (NoTimestamp n a body)
  with assms have "no_match event_re (element_text e) w"
    using no_timestamp_skipped by simp
  from match_all_skip [OF this] NoTimestamp show ?thesis
    by simp
next
  case (TimestampFirst a0 t a1 n a2 body)
  with assms have "no_match event_re (element_text e) w"
    using timestamp_first_skipped by simp
  from match_all_skip [OF this] TimestampFirst show ?thesis
    by simp
qed

lemma parse_payload:
  "payload_ok j0 xs \<Longrightarrow>
   parseXEventData (payload_text j0 xs) lookup = List.map_filter (event_of lookup) (map fst xs)"
proof (induction xs arbitrary: j0)
  case Nil
  then show ?case by (simp add: parseXEventData_def junk_only)
next
  case (Cons x xs)
  obtain e j where x: "x = (e, j)" by (cases x)
  from Cons.prems x have ok: \<open>no_start ''<event name="'' j0 []\<close> "element_ok e" "payload_ok j xs"
    by simp_all
  have "match_all event_re (j0 @ element_text e @ payload_text j xs) =
        match_all event_re (element_text e @ payload_text j xs)"
    using junk_skipped [OF ok(1)] by (rule match_all_skip)
  with element_matches [OF ok(2), of lookup "payload_text j xs"] Cons.IH [OF ok(3)] x
  show ?case
    by (simp add: parseXEventData_def split: option.splits)
qed


lemma map_filter_append:
  "List.map_filter f (xs @ ys) = List.map_filter f xs @ List.map_filter f ys"
  by (simp add: List.map_filter_def)




text \<open>
  C10: an event element that carries both attributes with the timestamp before the name is
  not recognized.  For every payload that holds such an element, at any place, the output
  of the parser holds no event for it: the output is the events of the elements before it
  followed by the events of the elements behind it.
\<close>

theorem timestamp_before_name_omitted:
  assumes "payload_ok j0 (xs @ (TimestampFirst a0 t a1 n a2 body, j) # ys)"
  shows "parseXEventData (payload_text j0 (xs @ (TimestampFirst a0 t a1 n a2 body, j) # ys)) lookup =
           List.map_filter (event_of lookup) (map fst xs) @
           List.map_filter (event_of lookup) (map fst ys)"
  using parse_payload [OF assms, of lookup]
  by (simp add: map_filter_append)

theorem timestamp_before_name_omitted_witness:
  \<open>payload_ok [] swapped_payload \<and>
   payload_text [] swapped_payload =
     ''<event timestamp="2025-11-17T19:30:45.123Z" package="sqlserver" name="sql_batch_completed"><data name="duration"><value>12</value></data></event><event name="rpc_completed" timestamp="2025-11-17T19:30:46.001Z"></event>'' \<and>
   map (\<lambda>e. (name e, timestamp e)) (parseXEventData (payload_text [] swapped_payload) Map.empty) =
     [(''rpc_completed'', ''2025-11-17T19:30:46.001Z'')]\<close>
proof -
  have ok: \<open>payload_ok [] ([] @ (TimestampFirst '' '' ''2025-11-17T19:30:45.123Z'' '' package="sqlserver" ''
         ''sql_batch_completed'' [] ''<data name="duration"><value>12</value></data>'', []) #
       [(WellFormed ''rpc_completed'' '' '' ''2025-11-17T19:30:46.001Z'' [] [], [])])\<close>
    by (simp add: dquote_def)
  show ?thesis
    using ok timestamp_before_name_omitted [OF ok, of Map.empty]
    by (simp add: swapped_payload_def dquote_def)
qed

text \<open>
  C8 (the code departs from the claim): the pattern for the text sub-values runs from a
  \<open><data name="..."\<close> to the next \<open><text>\<close>, across the ends of the fields.  In the first
  payload the field \<open>result\<close> carries the sub-value \<open>OK\<close>; it is stored under
  \<open>cpu_time_text\<close>, the key of the first field of the event, and nothing is stored under
  \<open>result_text\<close>.  In the second payload the sub-value \<open>X\<close> of the field \<open>batch\<close> overwrites
  the primary value \<open>SELECT 1\<close> of the field \<open>batch_text\<close>.
\<close>

theorem text_under_other_key:
  "map (\<lambda>e. (event_values e ''cpu_time'', event_values e ''result'',
              event_values e ''cpu_time_text'', event_values e ''result_text''))
     (parseXEventData text_payload Map.empty) = [(Some ''0'', Some ''0'', Some ''OK'', None)] \<and>
   map (\<lambda>e. (event_values e ''batch'', event_values e ''batch_text''))
     (parseXEventData text_clash_payload Map.empty) = [(Some ''1'', Some ''X'')]"
  unfolding text_payload_def text_clash_payload_def by code_simp

end
